theory Spec2Isabelle
  imports Complex_Main "HOL-Library.Sublist"
begin

section \<open>Python values used by app.py\<close>

text \<open>
  A Python \<open>str\<close> is a sequence of Unicode code points: \<open>len\<close> counts code points and a
  slice cuts between them. A code point is a natural number here, so the bullet marker
  U+2022 is one character, as it is in the source.
\<close>

type_synonym pychar = nat
type_synonym pystr = "pychar list"

definition ustr :: "string \<Rightarrow> pystr" where
  "ustr s = map of_char s"

text \<open>The exceptions the modelled code can raise. A provider's exception is opaque.\<close>

datatype error =
    ValueError
  | KeyError pystr
  | IndexError
  | ProviderError pystr

subsection \<open>\<open>range(start, stop, step)\<close>\<close>

function range_up :: "int \<Rightarrow> int \<Rightarrow> int \<Rightarrow> int list" where
  "range_up i stop step =
     (if 0 < step \<and> i < stop then i # range_up (i + step) stop step else [])"
  by pat_completeness auto
termination
  by (relation "measure (\<lambda>(i, stop, step). nat (stop - i))") auto

function range_down :: "int \<Rightarrow> int \<Rightarrow> int \<Rightarrow> int list" where
  "range_down i stop step =
     (if step < 0 \<and> stop < i then i # range_down (i + step) stop step else [])"
  by pat_completeness auto
termination
  by (relation "measure (\<lambda>(i, stop, step). nat (i - stop))") auto

declare range_up.simps [simp del] range_down.simps [simp del]

text \<open>\<open>range\<close> raises ValueError for a zero step, before it looks at the bounds.\<close>

definition py_range :: "int \<Rightarrow> int \<Rightarrow> int \<Rightarrow> error + int list" where
  "py_range start stop step =
     (if step = 0 then Inl ValueError
      else if 0 < step then Inr (range_up start stop step)
      else Inr (range_down start stop step))"

subsection \<open>\<open>s[lo:hi]\<close>\<close>

text \<open>
  A slice never raises: a negative bound counts from the end, and both bounds are
  clamped to \<open>0 .. len(s)\<close>.
\<close>

definition slice_index :: "int \<Rightarrow> int \<Rightarrow> int" where
  "slice_index n i = (if i < 0 then max 0 (i + n) else min i n)"

definition py_slice :: "'a list \<Rightarrow> int \<Rightarrow> int \<Rightarrow> 'a list" where
  "py_slice s lo hi =
     (let n = int (length s); a = slice_index n lo; b = slice_index n hi
      in take (nat (b - a)) (drop (nat a) s))"

section \<open>Chunker\<close>

text \<open>
  \<^verbatim>\<open>
  def chunk_text(text, chunk_size=1000):
      return [text[i:i+chunk_size] for i in range(0, len(text), chunk_size)]
  \<close>
\<close>

definition chunk_text :: "pystr \<Rightarrow> int \<Rightarrow> error + pystr list" where
  "chunk_text text chunk_size =
     (case py_range 0 (int (length text)) chunk_size of
        Inl e \<Rightarrow> Inl e
      | Inr idxs \<Rightarrow> Inr (map (\<lambda>i. py_slice text i (i + chunk_size)) idxs))"

definition default_chunk_size :: int where
  "default_chunk_size = 1000"

section \<open>Length policy\<close>

text \<open>
  \<^verbatim>\<open>
  length_map = {"Short": (60, 20), "Medium": (120, 40), "Detailed": (200, 70)}
  MAX_LEN, MIN_LEN = length_map[summary_type]
  \<close>
  Subscripting a dict with a key it does not hold raises KeyError.
\<close>

definition subscript :: "(pystr \<rightharpoonup> 'v) \<Rightarrow> pystr \<Rightarrow> error + 'v" where
  "subscript d k = (case d k of None \<Rightarrow> Inl (KeyError k) | Some v \<Rightarrow> Inr v)"

definition length_map :: "pystr \<rightharpoonup> int \<times> int" where
  "length_map =
     [ustr ''Short'' \<mapsto> (60, 20), ustr ''Medium'' \<mapsto> (120, 40), ustr ''Detailed'' \<mapsto> (200, 70)]"

definition length_policy :: "pystr \<Rightarrow> error + int \<times> int" where
  "length_policy summary_type = subscript length_map summary_type"

section \<open>Summary assembler\<close>

text \<open>
  The summarizer is the external provider. It is called as
  \<open>summarizer(chunk, max_length=MAX_LEN, min_length=MIN_LEN, do_sample=False)\<close> and
  returns a list of dicts, or raises. It may keep state of its own, which the model
  threads through the calls in the order the loop makes them.
\<close>

type_synonym result = "(pystr \<rightharpoonup> pystr) list"
type_synonym 'st summarizer = "pystr \<Rightarrow> int \<Rightarrow> int \<Rightarrow> 'st \<Rightarrow> (error + result) \<times> 'st"

text \<open>\<open>result[0]["summary_text"]\<close>: IndexError on an empty list, KeyError on a missing key.\<close>

definition summary_text_of :: "result \<Rightarrow> error + pystr" where
  "summary_text_of result =
     (case result of [] \<Rightarrow> Inl IndexError | d # _ \<Rightarrow> subscript d (ustr ''summary_text''))"

text \<open>\<open>sep.join(parts)\<close>\<close>

fun py_join :: "pystr \<Rightarrow> pystr list \<Rightarrow> pystr" where
  "py_join sep [] = []"
| "py_join sep [x] = x"
| "py_join sep (x # y # ys) = x @ sep @ py_join sep (y # ys)"

text \<open>
  \<^verbatim>\<open>
  def summarize_text(text):
      chunks = chunk_text(text)
      summaries = []
      for chunk in chunks:
          result = summarizer(chunk, max_length=MAX_LEN, min_length=MIN_LEN, do_sample=False)
          summaries.append(result[0]["summary_text"])
      return " ".join(summaries)
  \<close>
  An exception raised in the loop body leaves the function at once; nothing catches it.
\<close>

fun summarize_loop ::
  "'st summarizer \<Rightarrow> int \<Rightarrow> int \<Rightarrow> pystr list \<Rightarrow> pystr list \<Rightarrow> 'st
   \<Rightarrow> (error + pystr list) \<times> 'st" where
  "summarize_loop summarizer max_len min_len [] summaries st = (Inr summaries, st)"
| "summarize_loop summarizer max_len min_len (chunk # chunks) summaries st =
     (case summarizer chunk max_len min_len st of
        (Inl e, st') \<Rightarrow> (Inl e, st')
      | (Inr result, st') \<Rightarrow>
          (case summary_text_of result of
             Inl e \<Rightarrow> (Inl e, st')
           | Inr s \<Rightarrow> summarize_loop summarizer max_len min_len chunks (summaries @ [s]) st'))"

definition summarize_text ::
  "'st summarizer \<Rightarrow> int \<Rightarrow> int \<Rightarrow> pystr \<Rightarrow> 'st \<Rightarrow> (error + pystr) \<times> 'st" where
  "summarize_text summarizer max_len min_len text st =
     (case chunk_text text default_chunk_size of
        Inl e \<Rightarrow> (Inl e, st)
      | Inr chunks \<Rightarrow>
          (case summarize_loop summarizer max_len min_len chunks [] st of
             (Inl e, st') \<Rightarrow> (Inl e, st')
           | (Inr summaries, st') \<Rightarrow> (Inr (py_join (ustr '' '') summaries), st')))"

subsection \<open>Observing the provider\<close>

text \<open>
  A provider without state of its own is a function of its arguments. \<open>logged\<close> wraps a
  provider so that its state also records, in order, the arguments of every call made.
\<close>

definition stateless :: "(pystr \<Rightarrow> int \<Rightarrow> int \<Rightarrow> error + result) \<Rightarrow> 'st summarizer" where
  "stateless f chunk max_len min_len st = (f chunk max_len min_len, st)"

definition logged :: "'st summarizer \<Rightarrow> ('st \<times> (pystr \<times> int \<times> int) list) summarizer" where
  "logged summarizer chunk max_len min_len =
     (\<lambda>(st, calls).
        case summarizer chunk max_len min_len st of
          (r, st') \<Rightarrow> (r, (st', calls @ [(chunk, max_len, min_len)])))"

text \<open>What one loop iteration appends for a chunk, or the exception it raises.\<close>

definition chunk_summary ::
  "(pystr \<Rightarrow> int \<Rightarrow> int \<Rightarrow> error + result) \<Rightarrow> int \<Rightarrow> int \<Rightarrow> pystr \<Rightarrow> error + pystr" where
  "chunk_summary f max_len min_len chunk =
     (case f chunk max_len min_len of Inl e \<Rightarrow> Inl e | Inr result \<Rightarrow> summary_text_of result)"

text \<open>
  Calling the provider on each chunk in order, each call in the state the calls before
  it left: what the loop body gets for every chunk, and the provider's state after the
  calls. For a provider that keeps state this is what its result for the i-th chunk means.
\<close>

definition summary_of :: "error + result \<Rightarrow> error + pystr" where
  "summary_of r = (case r of Inl e \<Rightarrow> Inl e | Inr result \<Rightarrow> summary_text_of result)"

fun chunk_outcomes ::
  "'st summarizer \<Rightarrow> int \<Rightarrow> int \<Rightarrow> pystr list \<Rightarrow> 'st \<Rightarrow> (error + pystr) list" where
  "chunk_outcomes summarizer max_len min_len [] st = []"
| "chunk_outcomes summarizer max_len min_len (chunk # chunks) st =
     (case summarizer chunk max_len min_len st of
        (r, st') \<Rightarrow> summary_of r # chunk_outcomes summarizer max_len min_len chunks st')"

fun state_after :: "'st summarizer \<Rightarrow> int \<Rightarrow> int \<Rightarrow> pystr list \<Rightarrow> 'st \<Rightarrow> 'st" where
  "state_after summarizer max_len min_len [] st = st"
| "state_after summarizer max_len min_len (chunk # chunks) st =
     (case summarizer chunk max_len min_len st of
        (r, st') \<Rightarrow> state_after summarizer max_len min_len chunks st')"

section \<open>Bullet formatter\<close>

text \<open>
  \<open>str.strip()\<close> without arguments removes the characters for which \<open>str.isspace()\<close>
  holds from both ends.
\<close>

definition is_space :: "pychar \<Rightarrow> bool" where
  "is_space c =
     (List.member [9, 10, 11, 12, 13, 28, 29, 30, 31, 32, 133, 160, 5760,
                   8232, 8233, 8239, 8287, 12288] c \<or> (8192 \<le> c \<and> c \<le> 8202))"

definition strip :: "pystr \<Rightarrow> pystr" where
  "strip s = rev (dropWhile is_space (rev (dropWhile is_space s)))"

text \<open>
  \<open>s.split(sep)\<close> raises ValueError for an empty separator. Otherwise it looks for the
  leftmost occurrence of \<open>sep\<close>, cuts the part before it off, and goes on after the
  occurrence; what is left when no occurrence remains is the last part.
\<close>

fun find_sub :: "pystr \<Rightarrow> pystr \<Rightarrow> nat option" where
  "find_sub sep [] = (if sep = [] then Some 0 else None)"
| "find_sub sep (c # cs) =
     (if prefix sep (c # cs) then Some 0 else map_option Suc (find_sub sep cs))"

function split_loop :: "pystr \<Rightarrow> pystr \<Rightarrow> pystr list" where
  "split_loop sep s =
     (case find_sub sep s of
        None \<Rightarrow> [s]
      | Some pos \<Rightarrow>
          if sep = [] then [s]
          else take pos s # split_loop sep (drop (pos + length sep) s))"
  by pat_completeness auto
termination
proof (relation "measure (\<lambda>(sep, s). length s)")
  show "wf (measure (\<lambda>(sep, s). length s))" by simp
next
  fix sep s :: pystr and pos
  assume found: "find_sub sep s = Some pos" and sep: "sep \<noteq> []"
  have "find_sub sep t = Some q \<Longrightarrow> q + length sep \<le> length t" for t q
  proof (induction t arbitrary: q)
    case Nil
    then show ?case by (simp split: if_splits)
  next
    case (Cons c cs)
    show ?case
    proof (cases "prefix sep (c # cs)")
      case True
      with Cons.prems show ?thesis by (auto dest: prefix_length_le)
    next
      case False
      with Cons.prems obtain r where "find_sub sep cs = Some r" "q = Suc r" by auto
      with Cons.IH show ?thesis by simp
    qed
  qed
  with found have "pos + length sep \<le> length s" by simp
  with sep have "length (drop (pos + length sep) s) < length s"
    by (cases sep) auto
  then show "((sep, drop (pos + length sep) s), (sep, s)) \<in> measure (\<lambda>(sep, s). length s)"
    by simp
qed

declare split_loop.simps [simp del]

definition py_split :: "pystr \<Rightarrow> pystr \<Rightarrow> error + pystr list" where
  "py_split s sep = (if sep = [] then Inl ValueError else Inr (split_loop sep s))"

text \<open>
  \<^verbatim>\<open>
  def to_bullets(summary):
      sentences = summary.split(". ")
      return ["\<bullet> " + s.strip() for s in sentences if len(s.strip()) > 5]
  \<close>
  The marker is U+2022 followed by a space.
\<close>

definition bullet_marker :: pystr where
  "bullet_marker = [8226, 32]"

definition to_bullets :: "pystr \<Rightarrow> error + pystr list" where
  "to_bullets summary =
     (case py_split summary (ustr ''. '') of
        Inl e \<Rightarrow> Inl e
      | Inr sentences \<Rightarrow>
          Inr [bullet_marker @ strip s. s \<leftarrow> sentences, 5 < length (strip s)])"

subsection \<open>The formatter as the specification words it\<close>

text \<open>
  Section 4.4 of the specification: split the summary on the literal delimiter
  \<open>". "\<close> into fragments, trim each fragment, discard the fragments whose trimmed
  length is at most 5, and put the marker in front of each fragment that is left.
  \<open>fragments\<close> reads the text once from the left: a fragment ends where the delimiter
  begins, and reading goes on after the delimiter.
\<close>

fun fragments :: "pystr \<Rightarrow> pystr \<Rightarrow> pystr list" where
  "fragments delim [] = [[]]"
| "fragments delim (c # cs) =
     (if prefix delim (c # cs) then [] # fragments delim (drop (length delim - 1) cs)
      else (case fragments delim cs of
              [] \<Rightarrow> [[c]]
            | f # fs \<Rightarrow> (c # f) # fs))"

text \<open>
  Trimming takes the whitespace off the front of a fragment and off its end.
\<close>

fun trim_left :: "pystr \<Rightarrow> pystr" where
  "trim_left [] = []"
| "trim_left (c # cs) = (if is_space c then trim_left cs else c # cs)"

fun trim_right :: "pystr \<Rightarrow> pystr" where
  "trim_right [] = []"
| "trim_right (c # cs) =
     (case trim_right cs of
        [] \<Rightarrow> if is_space c then [] else [c]
      | r # rs \<Rightarrow> c # r # rs)"

definition trim :: "pystr \<Rightarrow> pystr" where
  "trim f = trim_right (trim_left f)"

text \<open>The delimiter is a full stop and a space; the marker is U+2022 and a space.\<close>

definition to_bullets_spec :: "pystr \<Rightarrow> pystr list" where
  "to_bullets_spec summary =
     map (\<lambda>f. [8226, 32] @ f)
       (filter (\<lambda>f. \<not> length f \<le> 5) (map trim (fragments [46, 32] summary)))"

text \<open>A text holds the delimiter when the delimiter starts at one of its positions.\<close>

fun contains :: "pystr \<Rightarrow> pystr \<Rightarrow> bool" where
  "contains delim [] = (delim = [])"
| "contains delim (c # cs) = (prefix delim (c # cs) \<or> contains delim cs)"

section \<open>The study-notes button\<close>

text \<open>
  \<^verbatim>\<open>
  if st.button("Generate Study Notes"):
      if not user_input.strip() and not text:
          st.warning("Please enter text or upload a PDF.")
      else:
          try:
              source_text = text if text else user_input
              summary = summarize_text(source_text)
              bullets = to_bullets(summary)
              for bullet in bullets: st.write(bullet)
              st.download_button("Download Notes", summary, ...)
          except Exception as e:
              st.error(...)
  \<close>
  \<open>text\<close> is the text extracted from the uploaded PDF, or the empty string.
\<close>

datatype shown =
    Warning
  | StudyNotes "pystr list" pystr
  | ErrorMessage error

definition source_text :: "pystr \<Rightarrow> pystr \<Rightarrow> pystr" where
  "source_text text user_input = (if text \<noteq> [] then text else user_input)"

definition generate_notes ::
  "'st summarizer \<Rightarrow> int \<Rightarrow> int \<Rightarrow> pystr \<Rightarrow> pystr \<Rightarrow> 'st \<Rightarrow> shown \<times> 'st" where
  "generate_notes summarizer max_len min_len user_input text st =
     (if strip user_input = [] \<and> text = [] then (Warning, st)
      else
        (case summarize_text summarizer max_len min_len (source_text text user_input) st of
           (Inl e, st') \<Rightarrow> (ErrorMessage e, st')
         | (Inr summary, st') \<Rightarrow>
             (case to_bullets summary of
                Inl e \<Rightarrow> (ErrorMessage e, st')
              | Inr bullets \<Rightarrow> (StudyNotes bullets summary, st'))))"

section \<open>A provider stub\<close>

text \<open>
  A stub for the tests of section 8 of the specification: it raises on a chunk that
  starts with \<open>x\<close> and answers every other chunk with a one-element result list.
\<close>

definition stub :: "pystr \<Rightarrow> int \<Rightarrow> int \<Rightarrow> error + result" where
  "stub chunk max_len min_len =
     (if take 1 chunk = ustr ''x'' then Inl (ProviderError (ustr ''boom''))
      else Inr [[ustr ''summary_text'' \<mapsto> take 8 chunk]])"

text \<open>
  Two providers that keep state, the number of calls made so far: \<open>counting\<close> always
  succeeds and puts the digit of the call number behind its answer; \<open>flaky\<close> raises on
  its second call, whatever the chunk.
\<close>

definition counting :: "nat summarizer" where
  "counting chunk max_len min_len n =
     (Inr [[ustr ''summary_text'' \<mapsto> take 3 chunk @ [48 + n]]], Suc n)"

definition flaky :: "nat summarizer" where
  "flaky chunk max_len min_len n =
     (if n = 1 then Inl (ProviderError (ustr ''timeout''))
      else Inr [[ustr ''summary_text'' \<mapsto> take 8 chunk]], Suc n)"

section \<open>Properties of the chunker\<close>

lemma py_slice_forward:
  assumes "0 \<le> i" "0 < k"
  shows "py_slice s i (i + k) = take (nat k) (drop (nat i) s)"
proof (cases "i \<le> int (length s)")
  case True
  have "take (nat (min (i + k) (int (length s)) - i)) (drop (nat i) s)
        = take (nat k) (drop (nat i) s)"
  proof (cases "i + k \<le> int (length s)")
    case True
    then show ?thesis by (simp add: min_def)
  next
    case False
    with True assms have "length (drop (nat i) s) \<le> nat (int (length s) - i)"
      and "length (drop (nat i) s) \<le> nat k"
      by auto
    with False show ?thesis by (simp add: min_def)
  qed
  with True assms show ?thesis
    by (simp add: py_slice_def slice_index_def Let_def min_def)
next
  case False
  with assms show ?thesis
    by (simp add: py_slice_def slice_index_def Let_def min_def)
qed

lemma concat_slices_range_up:
  "0 < k \<Longrightarrow> 0 \<le> i \<Longrightarrow>
   concat (map (\<lambda>j. py_slice s j (j + k)) (range_up i (int (length s)) k)) = drop (nat i) s"
proof (induction i "int (length s)" k rule: range_up.induct)
  case (1 i k)
  show ?case
  proof (cases "i < int (length s)")
    case True
    with 1 have IH:
      "concat (map (\<lambda>j. py_slice s j (j + k)) (range_up (i + k) (int (length s)) k))
       = drop (nat (i + k)) s"
      by simp
    have "nat (i + k) = nat k + nat i" using 1 by (simp add: nat_add_distrib)
    then have "drop (nat (i + k)) s = drop (nat k) (drop (nat i) s)" by simp
    then have "take (nat k) (drop (nat i) s) @ drop (nat (i + k)) s = drop (nat i) s"
      by (simp only: append_take_drop_id)
    moreover have "range_up i (int (length s)) k = i # range_up (i + k) (int (length s)) k"
      using True 1 by (subst range_up.simps) simp
    ultimately show ?thesis
      using 1 IH by (simp only: list.map concat.simps py_slice_forward)
  next
    case False
    with 1 show ?thesis
      by (subst range_up.simps) simp
  qed
qed

lemma length_range_up:
  "0 < k \<Longrightarrow> i < n + k \<Longrightarrow> int (length (range_up i n k)) = - ((i - n) div k)"
proof (induction i n k rule: range_up.induct)
  case (1 i n k)
  show ?case
  proof (cases "i < n")
    case True
    with 1 have "int (length (range_up (i + k) n k)) = - ((i + k - n) div k)"
      by simp
    moreover have "(i - n + k) div k = (i - n) div k + 1"
      using 1(2) by simp
    moreover have "i + k - n = i - n + k" by simp
    ultimately show ?thesis using True 1(2)
      by (subst range_up.simps) simp
  next
    case False
    with 1 have "(i - n) div k = 0" by (simp add: div_pos_pos_trivial)
    with False show ?thesis by (subst range_up.simps) simp
  qed
qed

text \<open>
  C1 (lossless partition): for every text and every positive chunk size, the chunker
  returns a sequence whose concatenation, in order, is the text itself.
\<close>

theorem chunk_text_lossless:
  "0 < chunk_size \<Longrightarrow>
   \<exists>chunks. chunk_text text chunk_size = Inr chunks \<and> concat chunks = text"
  using concat_slices_range_up [of chunk_size 0 "text"]
  by (simp add: chunk_text_def py_range_def)

theorem chunk_text_lossless_witness:
  "(0::int) < 2 \<and>
   (\<exists>chunks. chunk_text (ustr ''abcde'') 2 = Inr chunks \<and> concat chunks = ustr ''abcde'')"
  using chunk_text_lossless [of 2 "ustr ''abcde''"] by simp

text \<open>
  C3 (chunk count): for a non-empty text and a positive chunk size the chunker returns
  \<open>ceil(len(text) / size)\<close> chunks, and for the empty text it returns no chunk.
\<close>

theorem chunk_text_count:
  "0 < chunk_size \<Longrightarrow>
   (text \<noteq> [] \<longrightarrow>
      (\<exists>chunks. chunk_text text chunk_size = Inr chunks \<and>
         int (length chunks) = \<lceil>real (length text) / real_of_int chunk_size\<rceil>)) \<and>
   chunk_text [] chunk_size = Inr []"
proof -
  assume pos: "0 < chunk_size"
  have "int (length (range_up 0 (int (length text)) chunk_size))
        = - (- int (length text) div chunk_size)"
    using length_range_up [of chunk_size 0 "int (length text)"] pos by simp
  also have "\<dots> = \<lceil>real (length text) / real_of_int chunk_size\<rceil>"
    using ceiling_divide_eq_div [of "int (length text)" chunk_size, where ?'a = real] by simp
  finally have count: "int (length (range_up 0 (int (length text)) chunk_size))
        = \<lceil>real (length text) / real_of_int chunk_size\<rceil>" .
  have empty: "range_up 0 0 chunk_size = []" by (subst range_up.simps) simp
  from pos count empty show ?thesis
    by (simp add: chunk_text_def py_range_def)
qed

theorem chunk_text_count_witness:
  "(0::int) < 2 \<and> ustr ''abcde'' \<noteq> [] \<and>
   (\<exists>chunks. chunk_text (ustr ''abcde'') 2 = Inr chunks \<and> int (length chunks) = 3) \<and>
   chunk_text [] 2 = Inr []"
  using chunk_text_count [of 2 "ustr ''abcde''"] by (simp add: ustr_def)

text \<open>
  C8 as amended (invalid chunk size): a chunk size of zero makes the chunker raise
  ValueError for every text; a negative chunk size raises nothing and yields the empty
  sequence; a positive chunk size never fails.
\<close>

theorem chunk_text_size_cases:
  "(chunk_size = 0 \<longrightarrow> chunk_text text chunk_size = Inl ValueError) \<and>
   (chunk_size < 0 \<longrightarrow> chunk_text text chunk_size = Inr []) \<and>
   (0 < chunk_size \<longrightarrow> (\<exists>chunks. chunk_text text chunk_size = Inr chunks))"
proof -
  have "chunk_size < 0 \<Longrightarrow> range_down 0 (int (length text)) chunk_size = []"
    by (subst range_down.simps) simp
  then show ?thesis
    by (simp add: chunk_text_def py_range_def)
qed

theorem chunk_text_size_cases_witness:
  "chunk_text (ustr ''abc'') 0 = Inl ValueError \<and>
   chunk_text (ustr ''abc'') (- 4) = Inr [] \<and>
   (\<exists>chunks. chunk_text (ustr ''abc'') 2 = Inr chunks)"
  using chunk_text_size_cases [of 0 "ustr ''abc''"]
    chunk_text_size_cases [of "- 4" "ustr ''abc''"]
    chunk_text_size_cases [of 2 "ustr ''abc''"]
  by simp

text \<open>
  C8 as stated fails: with a negative chunk size the chunker signals no error at all.
\<close>

theorem chunk_text_negative_size_counterexample:
  "chunk_text (ustr ''abc'') (- 1) = Inr []"
  by (simp add: chunk_text_def py_range_def range_down.simps)

section \<open>Properties of the bullet formatter\<close>

text \<open>What \<open>contains\<close> computes: the delimiter is a contiguous part of the text.\<close>

lemma contains_iff_sublist: "contains sep s \<longleftrightarrow> sublist sep s"
  by (induction s) (auto simp: sublist_Cons_right)

lemma find_sub_None_iff: "find_sub sep s = None \<longleftrightarrow> \<not> contains sep s"
  by (induction s) auto

lemma split_loop_no_delim: "\<not> contains sep s \<Longrightarrow> split_loop sep s = [s]"
  using find_sub_None_iff [of sep s] by (subst split_loop.simps) simp

lemma split_loop_prefix:
  "sep \<noteq> [] \<Longrightarrow> prefix sep (c # cs) \<Longrightarrow>
   split_loop sep (c # cs) = [] # split_loop sep (drop (length sep - 1) cs)"
  by (subst split_loop.simps) (cases sep; simp)

lemma split_loop_skip:
  assumes "sep \<noteq> []" "\<not> prefix sep (c # cs)"
  shows "split_loop sep (c # cs) =
         (case split_loop sep cs of [] \<Rightarrow> [[c]] | f # fs \<Rightarrow> (c # f) # fs)"
proof (cases "find_sub sep cs")
  case None
  then have "split_loop sep cs = [cs]" "split_loop sep (c # cs) = [c # cs]"
    using assms by (subst split_loop.simps, simp)+
  then show ?thesis by simp
next
  case (Some q)
  then have "split_loop sep cs = take q cs # split_loop sep (drop (q + length sep) cs)"
    using assms by (subst split_loop.simps) simp
  moreover have "split_loop sep (c # cs)
      = (c # take q cs) # split_loop sep (drop (q + length sep) cs)"
    using assms Some by (subst split_loop.simps) simp
  ultimately show ?thesis by simp
qed

text \<open>The search-and-cut loop of \<open>split\<close> and the left-to-right reading agree.\<close>

lemma split_loop_fragments: "sep \<noteq> [] \<Longrightarrow> split_loop sep s = fragments sep s"
proof (induction sep s rule: fragments.induct)
  case (1 delim)
  then show ?case by (subst split_loop.simps) simp
next
  case (2 delim c cs)
  show ?case
  proof (cases "prefix delim (c # cs)")
    case True
    with 2 show ?thesis by (simp add: split_loop_prefix)
  next
    case False
    with 2 show ?thesis by (simp add: split_loop_skip)
  qed
qed

text \<open>
  The fragments are a splitting on the delimiter: joined with the delimiter they give
  the text back, and no fragment holds the delimiter.
\<close>

lemma fragments_nonempty: "fragments delim s \<noteq> []"
  by (induction delim s rule: fragments.induct) (auto split: list.splits)

lemma py_join_Cons: "xs \<noteq> [] \<Longrightarrow> py_join d (x # xs) = x @ d @ py_join d xs"
  by (cases xs) simp_all

lemma py_join_Cons_Cons: "py_join d ((c # f) # fs) = c # py_join d (f # fs)"
  by (cases fs) simp_all

lemma fragments_join: "delim \<noteq> [] \<Longrightarrow> py_join delim (fragments delim s) = s"
proof (induction delim s rule: fragments.induct)
  case (1 delim)
  then show ?case by simp
next
  case (2 delim c cs)
  show ?case
  proof (cases "prefix delim (c # cs)")
    case True
    let ?rest = "drop (length delim - 1) cs"
    from True obtain r where r: "c # cs = delim @ r" by (auto simp: prefix_def)
    with 2(3) have whole: "c # cs = delim @ ?rest"
      by (cases delim) auto
    have "fragments delim (c # cs) = [] # fragments delim ?rest"
      using True by simp
    moreover have "py_join delim (fragments delim ?rest) = ?rest"
      using 2(1) [OF True 2(3)] .
    ultimately have "py_join delim (fragments delim (c # cs)) = delim @ ?rest"
      by (simp add: py_join_Cons fragments_nonempty)
    with whole show ?thesis by simp
  next
    case False
    obtain f fs where ffs: "fragments delim cs = f # fs"
      using fragments_nonempty [of delim cs] by (cases "fragments delim cs") auto
    with 2 False show ?thesis by (simp add: py_join_Cons_Cons)
  qed
qed

lemma py_join_prefix: "prefix f (py_join d (f # fs))"
  by (cases fs) simp_all

lemma fragments_no_delim:
  "delim \<noteq> [] \<Longrightarrow> f \<in> set (fragments delim s) \<Longrightarrow> \<not> contains delim f"
proof (induction delim s arbitrary: f rule: fragments.induct)
  case (1 delim)
  then show ?case by simp
next
  case (2 delim c cs)
  show ?case
  proof (cases "prefix delim (c # cs)")
    case True
    with 2 show ?thesis by auto
  next
    case False
    obtain g gs where ggs: "fragments delim cs = g # gs"
      using fragments_nonempty [of delim cs] by (cases "fragments delim cs") auto
    have "prefix g cs"
      using fragments_join [OF 2(3), of cs] py_join_prefix [of g delim gs] ggs by simp
    then have "\<not> prefix delim (c # g)"
      using False by (metis Cons_prefix_Cons prefix_order.order_trans)
    moreover have "\<not> contains delim g" using 2(2) [OF False 2(3)] ggs by simp
    ultimately have "\<not> contains delim (c # g)" by simp
    with 2 False ggs show ?thesis by auto
  qed
qed

lemma comprehension_map_filter:
  "[f s. s \<leftarrow> xs, P s] = map f (filter P xs)"
  by (induction xs) simp_all

lemma delim_nonempty: "ustr ''. '' \<noteq> []"
  by (simp add: ustr_def)

text \<open>
  Trimming as the specification words it is what \<open>strip\<close> computes: the text is its
  trimmed part between two runs of whitespace, and the trimmed part neither starts nor
  ends with whitespace.
\<close>

lemma trim_left_dropWhile: "trim_left s = dropWhile is_space s"
  by (induction s) simp_all

lemma trim_right_dropWhile: "trim_right s = rev (dropWhile is_space (rev s))"
proof (induction s)
  case Nil
  then show ?case by simp
next
  case (Cons c cs)
  show ?case
  proof (cases "\<forall>x\<in>set (rev cs). is_space x")
    case True
    then have "dropWhile is_space (rev cs) = []" by simp
    with Cons True show ?thesis by (simp add: dropWhile_append)
  next
    case False
    then have "dropWhile is_space (rev cs) \<noteq> []" by (simp add: dropWhile_eq_Nil_conv)
    then obtain r rs where "rev (dropWhile is_space (rev cs)) = r # rs"
      by (cases "rev (dropWhile is_space (rev cs))") auto
    with Cons False show ?thesis by (simp add: dropWhile_append)
  qed
qed

lemma strip_trim: "strip s = trim s"
  by (simp add: strip_def trim_def trim_left_dropWhile trim_right_dropWhile)

lemma trim_decomposition:
  "\<exists>front back.
     s = front @ trim s @ back \<and> list_all is_space front \<and> list_all is_space back"
proof -
  let ?m = "dropWhile is_space s"
  have "s = takeWhile is_space s @ ?m" by simp
  moreover have "?m = rev (dropWhile is_space (rev ?m)) @ rev (takeWhile is_space (rev ?m))"
    by (metis rev_append rev_rev_ident takeWhile_dropWhile_id)
  ultimately have "s = takeWhile is_space s @ trim s @ rev (takeWhile is_space (rev ?m))"
    by (simp add: trim_def trim_left_dropWhile trim_right_dropWhile)
  moreover have "list_all is_space (takeWhile is_space s)"
    by (simp add: list_all_iff) (meson set_takeWhileD)
  moreover have "list_all is_space (rev (takeWhile is_space (rev ?m)))"
    by (simp add: list_all_iff) (meson set_takeWhileD)
  ultimately show ?thesis by blast
qed

lemma trim_ends:
  "trim s \<noteq> [] \<Longrightarrow> \<not> is_space (hd (trim s)) \<and> \<not> is_space (last (trim s))"
proof -
  assume ne: "trim s \<noteq> []"
  let ?m = "dropWhile is_space s"
  have t: "trim s = rev (dropWhile is_space (rev ?m))"
    by (simp add: trim_def trim_left_dropWhile trim_right_dropWhile)
  with ne have d: "dropWhile is_space (rev ?m) \<noteq> []" by simp
  then have "\<not> is_space (hd (dropWhile is_space (rev ?m)))" by (rule hd_dropWhile)
  with d t have last: "\<not> is_space (last (trim s))" by (simp add: last_rev)
  have m: "?m \<noteq> []"
  proof
    assume e: "?m = []"
    have "trim s = []" unfolding t e by simp
    with ne show False by simp
  qed
  then have "\<not> is_space (hd ?m)" by (rule hd_dropWhile)
  moreover have "hd (trim s) = hd ?m"
  proof -
    obtain ws where "?m = trim s @ ws"
      using t by (metis rev_append rev_rev_ident takeWhile_dropWhile_id)
    with ne show ?thesis by (metis hd_append2)
  qed
  ultimately show ?thesis using last by simp
qed

lemma delim_code: "ustr ''. '' = [46, 32]"
  by (simp add: ustr_def)

lemma to_bullets_eq_spec: "to_bullets summary = Inr (to_bullets_spec summary)"
proof -
  have "to_bullets summary =
        Inr (map (\<lambda>s. bullet_marker @ strip s)
               (filter (\<lambda>s. 5 < length (strip s)) (fragments (ustr ''. '') summary)))"
    unfolding to_bullets_def py_split_def
    by (simp only: delim_nonempty if_False sum.case split_loop_fragments [OF delim_nonempty]
        comprehension_map_filter)
  also have "\<dots> = Inr (to_bullets_spec summary)"
    by (simp add: to_bullets_spec_def delim_code bullet_marker_def strip_trim filter_map
        o_def not_le)
  finally show ?thesis .
qed

text \<open>
  C4 (bullet formatter algorithm): for every summary, \<open>to_bullets\<close> returns the
  fragments of the summary split on the delimiter \<open>". "\<close>, each trimmed of the
  whitespace at its front and end, those of trimmed length at most 5 discarded, each
  with the marker U+2022 and a space in front, in the original order; and the summary
  \<open>"AI is great. Go. Study hard and review daily."\<close> gives the two bullets
  \<open>"AI is great"\<close> and \<open>"Study hard and review daily."\<close> behind the marker.
\<close>

theorem to_bullets_algorithm:
  "to_bullets summary = Inr (to_bullets_spec summary) \<and>
   to_bullets (ustr ''AI is great. Go. Study hard and review daily.'') =
     Inr [8226 # 32 # ustr ''AI is great'',
          8226 # 32 # ustr ''Study hard and review daily.'']"
proof -
  have "to_bullets_spec (ustr ''AI is great. Go. Study hard and review daily.'') =
     [8226 # 32 # ustr ''AI is great'',
      8226 # 32 # ustr ''Study hard and review daily.'']"
    by (simp add: to_bullets_spec_def ustr_def trim_def is_space_def)
  then show ?thesis by (simp only: to_bullets_eq_spec simp_thms)
qed

theorem to_bullets_algorithm_witness:
  "to_bullets (ustr ''  Deep learning .  Go. '' @ [9] @ ustr ''Review daily'' @ [10]) =
     Inr [[8226, 32, 68, 101, 101, 112, 32, 108, 101, 97, 114, 110, 105, 110, 103],
          [8226, 32, 82, 101, 118, 105, 101, 119, 32, 100, 97, 105, 108, 121]]"
proof -
  have "to_bullets_spec (ustr ''  Deep learning .  Go. '' @ [9] @ ustr ''Review daily'' @ [10]) =
     [[8226, 32, 68, 101, 101, 112, 32, 108, 101, 97, 114, 110, 105, 110, 103],
      [8226, 32, 82, 101, 118, 105, 101, 119, 32, 100, 97, 105, 108, 121]]"
    by (simp add: to_bullets_spec_def ustr_def trim_def is_space_def)
  with to_bullets_algorithm
    [of "ustr ''  Deep learning .  Go. '' @ [9] @ ustr ''Review daily'' @ [10]"]
  show ?thesis by simp
qed

text \<open>
  C9 (bullet formatter edge cases): the empty summary gives no bullet; a summary that
  does not hold the delimiter \<open>". "\<close> gives exactly one bullet, the whole trimmed
  summary with the marker U+2022 and a space in front, when the trimmed summary is
  longer than 5 characters, and no bullet otherwise.
\<close>

theorem to_bullets_edge_cases:
  "to_bullets [] = Inr [] \<and>
   (\<not> contains (ustr ''. '') summary \<longrightarrow>
      to_bullets summary =
        Inr (if 5 < length (trim summary) then [8226 # 32 # trim summary] else []))"
proof -
  have "\<not> contains (ustr ''. '') []" by (simp add: ustr_def)
  then have "split_loop (ustr ''. '') [] = [[]]" by (rule split_loop_no_delim)
  then have "to_bullets [] = Inr []"
    by (simp add: to_bullets_def py_split_def delim_nonempty strip_def)
  moreover have "to_bullets summary =
        Inr (if 5 < length (trim summary) then [8226 # 32 # trim summary] else [])"
    if "\<not> contains (ustr ''. '') summary"
    using split_loop_no_delim [OF that]
    by (simp add: to_bullets_def py_split_def delim_nonempty strip_trim bullet_marker_def)
  ultimately show ?thesis by simp
qed

theorem to_bullets_edge_cases_witness:
  "\<not> contains (ustr ''. '') (ustr ''  Study hard.'' @ [9, 32, 10]) \<and>
   to_bullets (ustr ''  Study hard.'' @ [9, 32, 10]) =
     Inr [[8226, 32, 83, 116, 117, 100, 121, 32, 104, 97, 114, 100, 46]] \<and>
   \<not> contains (ustr ''. '') (ustr ''  Go on  '') \<and>
   to_bullets (ustr ''  Go on  '') = Inr []"
  using to_bullets_edge_cases [of "ustr ''  Study hard.'' @ [9, 32, 10]"]
    to_bullets_edge_cases [of "ustr ''  Go on  ''"]
  by (simp add: ustr_def trim_def is_space_def)

section \<open>Properties of the length policy\<close>

text \<open>
  C5 (policy table closure): the tier \<open>Short\<close> resolves to \<open>(60, 20)\<close>, \<open>Medium\<close> to
  \<open>(120, 40)\<close>, \<open>Detailed\<close> to \<open>(200, 70)\<close>, and every other tier raises the lookup's
  error for a key that is not in the table.
\<close>

theorem length_policy_table:
  "length_policy (ustr ''Short'') = Inr (60, 20) \<and>
   length_policy (ustr ''Medium'') = Inr (120, 40) \<and>
   length_policy (ustr ''Detailed'') = Inr (200, 70) \<and>
   (summary_type \<notin> {ustr ''Short'', ustr ''Medium'', ustr ''Detailed''} \<longrightarrow>
      length_policy summary_type = Inl (KeyError summary_type))"
  by (simp add: length_policy_def length_map_def subscript_def ustr_def)

theorem length_policy_table_witness:
  "ustr ''Long'' \<notin> {ustr ''Short'', ustr ''Medium'', ustr ''Detailed''} \<and>
   length_policy (ustr ''Long'') = Inl (KeyError (ustr ''Long''))"
  using length_policy_table [of "ustr ''Long''"] by (simp add: ustr_def)

section \<open>Properties of the summary assembler\<close>

lemma chunk_text_empty: "chunk_text [] default_chunk_size = Inr []"
  by (simp add: chunk_text_def py_range_def default_chunk_size_def range_up.simps)

text \<open>
  C6 (empty input): for every policy and every provider, summarizing the empty text
  returns the empty string, raises nothing, and makes no call to the provider: the
  provider's state is what it was, and the record of calls stays empty.
\<close>

theorem summarize_text_empty:
  "summarize_text summarizer max_len min_len [] st = (Inr [], st) \<and>
   summarize_text (logged summarizer) max_len min_len [] (st, []) = (Inr [], (st, []))"
  by (simp add: summarize_text_def chunk_text_empty)

text \<open>One iteration of the loop, for a provider without state whose calls are recorded.\<close>

lemma loop_step_ok:
  "chunk_summary f max_len min_len chunk = Inr s \<Longrightarrow>
   summarize_loop (logged (stateless f)) max_len min_len (chunk # chunks) acc (st, calls) =
   summarize_loop (logged (stateless f)) max_len min_len chunks (acc @ [s])
     (st, calls @ [(chunk, max_len, min_len)])"
  by (auto simp: chunk_summary_def logged_def stateless_def split: sum.splits)

lemma loop_step_fail:
  "chunk_summary f max_len min_len chunk = Inl e \<Longrightarrow>
   summarize_loop (logged (stateless f)) max_len min_len (chunk # chunks) acc (st, calls) =
   (Inl e, (st, calls @ [(chunk, max_len, min_len)]))"
  by (auto simp: chunk_summary_def logged_def stateless_def split: sum.splits)

lemma loop_all_ok:
  "list_all2 (\<lambda>chunk s. chunk_summary f max_len min_len chunk = Inr s) chunks summaries \<Longrightarrow>
   summarize_loop (logged (stateless f)) max_len min_len chunks acc (st, calls) =
   (Inr (acc @ summaries), (st, calls @ map (\<lambda>chunk. (chunk, max_len, min_len)) chunks))"
proof (induction chunks summaries arbitrary: acc calls rule: list_all2_induct)
  case Nil
  then show ?case by simp
next
  case (Cons chunk s chunks summaries)
  then show ?case by (simp add: loop_step_ok del: summarize_loop.simps)
qed

lemma loop_first_failure:
  "list_all2 (\<lambda>chunk s. chunk_summary f max_len min_len chunk = Inr s) before summaries \<Longrightarrow>
   chunk_summary f max_len min_len chunk = Inl e \<Longrightarrow>
   summarize_loop (logged (stateless f)) max_len min_len (before @ chunk # after) acc (st, calls) =
   (Inl e, (st, calls @ map (\<lambda>chunk. (chunk, max_len, min_len)) (before @ [chunk])))"
proof (induction before summaries arbitrary: acc calls rule: list_all2_induct)
  case Nil
  then show ?case by (simp add: loop_step_fail del: summarize_loop.simps)
next
  case (Cons c s before summaries)
  then show ?case by (simp add: loop_step_ok del: summarize_loop.simps)
qed

lemma summarize_text_in_order:
  assumes "chunk_text text default_chunk_size = Inr chunks"
    and "list_all2 (\<lambda>chunk s. chunk_summary f max_len min_len chunk = Inr s) chunks summaries"
  shows "summarize_text (logged (stateless f)) max_len min_len text (st, []) =
         (Inr (py_join (ustr '' '') summaries),
          (st, map (\<lambda>chunk. (chunk, max_len, min_len)) chunks))"
  using assms(1) loop_all_ok [OF assms(2), of "[]" st "[]"]
  by (simp add: summarize_text_def)

lemma summarize_text_first_failure:
  assumes "chunk_text text default_chunk_size = Inr chunks"
    and "i < length chunks"
    and "list_all2 (\<lambda>chunk s. chunk_summary f max_len min_len chunk = Inr s)
           (take i chunks) summaries"
    and "chunk_summary f max_len min_len (chunks ! i) = Inl e"
  shows "summarize_text (logged (stateless f)) max_len min_len text (st, []) =
         (Inl e, (st, map (\<lambda>chunk. (chunk, max_len, min_len)) (take (Suc i) chunks)))"
proof -
  have split: "chunks = take i chunks @ chunks ! i # drop (Suc i) chunks"
    using assms(2) by (rule id_take_nth_drop)
  have "summarize_loop (logged (stateless f)) max_len min_len
          (take i chunks @ chunks ! i # drop (Suc i) chunks) [] (st, []) =
        (Inl e, (st, [] @ map (\<lambda>chunk. (chunk, max_len, min_len)) (take i chunks @ [chunks ! i])))"
    using assms(3,4) by (rule loop_first_failure)
  with split assms(2) have "summarize_loop (logged (stateless f)) max_len min_len chunks [] (st, []) =
        (Inl e, (st, map (\<lambda>chunk. (chunk, max_len, min_len)) (take (Suc i) chunks)))"
    by (simp add: take_Suc_conv_app_nth)
  with assms(1) show ?thesis by (simp add: summarize_text_def)
qed

text \<open>The chunks of a text of at most 1000 characters, and of 1000 characters and a rest.\<close>

lemma chunk_text_one:
  assumes "t \<noteq> []" "length t \<le> 1000"
  shows "chunk_text t default_chunk_size = Inr [t]"
proof -
  have n: "0 < int (length t)" "int (length t) \<le> 1000" using assms by auto
  then have "range_up 1000 (int (length t)) 1000 = []" by (subst range_up.simps) simp
  with n have "range_up 0 (int (length t)) 1000 = [0]" by (subst range_up.simps) simp
  moreover have "py_slice t 0 (0 + 1000) = t"
    using assms by (subst py_slice_forward) simp_all
  ultimately show ?thesis
    by (simp add: chunk_text_def py_range_def default_chunk_size_def)
qed

lemma chunk_text_two:
  assumes "t \<noteq> []" "length t \<le> 1000"
  shows "chunk_text (replicate 1000 a @ t) default_chunk_size = Inr [replicate 1000 a, t]"
proof -
  let ?n = "int (length (replicate 1000 a @ t))"
  have n: "1000 < ?n" "?n \<le> 2000" using assms by auto
  then have "range_up 2000 ?n 1000 = []" by (subst range_up.simps) simp
  with n have "range_up 1000 ?n 1000 = [1000]" by (subst range_up.simps) simp
  with n have "range_up 0 ?n 1000 = [0, 1000]" by (subst range_up.simps) simp
  moreover have "py_slice (replicate 1000 a @ t) 0 (0 + 1000) = replicate 1000 a"
    by (subst py_slice_forward) simp_all
  moreover have "py_slice (replicate 1000 a @ t) 1000 (1000 + 1000) = t"
    using assms by (subst py_slice_forward) simp_all
  ultimately show ?thesis
    by (simp add: chunk_text_def py_range_def default_chunk_size_def)
qed

lemma chunk_text_three:
  assumes "t \<noteq> []" "length t \<le> 1000"
  shows "chunk_text (replicate 1000 a @ replicate 1000 b @ t) default_chunk_size =
         Inr [replicate 1000 a, replicate 1000 b, t]"
proof -
  let ?s = "replicate 1000 a @ replicate 1000 b @ t"
  let ?n = "int (length ?s)"
  have n: "2000 < ?n" "?n \<le> 3000" using assms by auto
  then have "range_up 3000 ?n 1000 = []" by (subst range_up.simps) simp
  with n have "range_up 2000 ?n 1000 = [2000]" by (subst range_up.simps) simp
  with n have "range_up 1000 ?n 1000 = [1000, 2000]" by (subst range_up.simps) simp
  with n have "range_up 0 ?n 1000 = [0, 1000, 2000]" by (subst range_up.simps) simp
  moreover have "py_slice ?s 0 (0 + 1000) = replicate 1000 a"
    by (subst py_slice_forward) simp_all
  moreover have "py_slice ?s 1000 (1000 + 1000) = replicate 1000 b"
    by (subst py_slice_forward) simp_all
  moreover have "py_slice ?s 2000 (2000 + 1000) = t"
    using assms by (subst py_slice_forward) simp_all
  ultimately show ?thesis
    by (simp add: chunk_text_def py_range_def default_chunk_size_def)
qed

text \<open>The stub on the chunks used below.\<close>

lemma stub_ok: "chunk_summary stub 60 20 (replicate 1000 97) = Inr (replicate 8 97)"
  by (simp add: chunk_summary_def stub_def summary_text_of_def subscript_def ustr_def)

lemma stub_ok2: "chunk_summary stub 60 20 (ustr ''bcd'') = Inr (ustr ''bcd'')"
  by (simp add: chunk_summary_def stub_def summary_text_of_def subscript_def ustr_def)

lemma stub_ok3: "chunk_summary stub 60 20 (ustr ''pdf text here'') = Inr (ustr ''pdf text'')"
  by (simp add: chunk_summary_def stub_def summary_text_of_def subscript_def ustr_def)

lemma stub_fail: "chunk_summary stub 60 20 (ustr ''x'') = Inl (ProviderError (ustr ''boom''))"
  by (simp add: chunk_summary_def stub_def summary_text_of_def subscript_def ustr_def)

text \<open>The loop against the provider called on the chunks in order, for any provider.\<close>

lemma summary_of_Inr:
  "summary_of r = Inr s \<longleftrightarrow> (\<exists>result. r = Inr result \<and> summary_text_of result = Inr s)"
  by (cases r) (simp_all add: summary_of_def)

lemma summary_of_Inl:
  "summary_of r = Inl e \<longleftrightarrow>
   r = Inl e \<or> (\<exists>result. r = Inr result \<and> summary_text_of result = Inl e)"
  by (cases r) (simp_all add: summary_of_def)

lemma loop_outcomes_ok:
  "chunk_outcomes summarizer max_len min_len chunks st = map Inr summaries \<Longrightarrow>
   summarize_loop summarizer max_len min_len chunks acc st =
   (Inr (acc @ summaries), state_after summarizer max_len min_len chunks st)"
proof (induction chunks arbitrary: summaries acc st)
  case Nil
  then show ?case by simp
next
  case (Cons chunk chunks)
  obtain r st' where call: "summarizer chunk max_len min_len st = (r, st')"
    by (cases "summarizer chunk max_len min_len st")
  with Cons.prems obtain s rest where parts: "summaries = s # rest" "summary_of r = Inr s"
    "chunk_outcomes summarizer max_len min_len chunks st' = map Inr rest"
    by (cases summaries) auto
  from parts(2) obtain result where res: "r = Inr result" "summary_text_of result = Inr s"
    by (auto simp: summary_of_Inr)
  from Cons.IH [OF parts(3), of "acc @ [s]"] call res parts(1) show ?case by simp
qed

lemma loop_outcomes_fail:
  "chunk_outcomes summarizer max_len min_len (before @ [chunk]) st = map Inr summaries @ [Inl e] \<Longrightarrow>
   summarize_loop summarizer max_len min_len (before @ chunk # rest) acc st =
   (Inl e, state_after summarizer max_len min_len (before @ [chunk]) st)"
proof (induction before arbitrary: summaries acc st)
  case Nil
  obtain r st' where call: "summarizer chunk max_len min_len st = (r, st')"
    by (cases "summarizer chunk max_len min_len st")
  with Nil have "summary_of r = Inl e" by (cases summaries) auto
  with call show ?case by (auto simp: summary_of_Inl)
next
  case (Cons c before)
  obtain r st' where call: "summarizer c max_len min_len st = (r, st')"
    by (cases "summarizer c max_len min_len st")
  from Cons.prems call have ne: "summaries \<noteq> []"
    by (cases before) (auto split: prod.splits)
  with Cons.prems call obtain s more where parts: "summaries = s # more" "summary_of r = Inr s"
    "chunk_outcomes summarizer max_len min_len (before @ [chunk]) st' = map Inr more @ [Inl e]"
    by (cases summaries) auto
  from parts(2) obtain result where res: "r = Inr result" "summary_text_of result = Inr s"
    by (auto simp: summary_of_Inr)
  from Cons.IH [OF parts(3), of "acc @ [s]"] call res show ?case by simp
qed

lemma chunk_outcomes_logged:
  "chunk_outcomes (logged summarizer) max_len min_len chunks (st, calls) =
   chunk_outcomes summarizer max_len min_len chunks st"
  by (induction chunks arbitrary: st calls) (auto simp: logged_def split: prod.splits)

lemma state_after_logged:
  "state_after (logged summarizer) max_len min_len chunks (st, calls) =
   (state_after summarizer max_len min_len chunks st,
    calls @ map (\<lambda>chunk. (chunk, max_len, min_len)) chunks)"
  by (induction chunks arbitrary: st calls) (auto simp: logged_def split: prod.splits)

lemma chunk_outcomes_stateless:
  "chunk_outcomes (stateless f) max_len min_len chunks st =
   map (chunk_summary f max_len min_len) chunks"
  by (induction chunks) (simp_all add: stateless_def chunk_summary_def summary_of_def)

lemma summarize_text_outcomes_ok:
  assumes "chunk_text text default_chunk_size = Inr chunks"
    and "chunk_outcomes summarizer max_len min_len chunks st = map Inr summaries"
  shows "summarize_text summarizer max_len min_len text st =
         (Inr (py_join (ustr '' '') summaries),
          state_after summarizer max_len min_len chunks st)"
  using assms(1) loop_outcomes_ok [OF assms(2), of "[]"]
  by (simp add: summarize_text_def)

lemma summarize_text_outcomes_fail:
  assumes "chunk_text text default_chunk_size = Inr chunks"
    and "i < length chunks"
    and "chunk_outcomes summarizer max_len min_len (take (Suc i) chunks) st =
         map Inr summaries @ [Inl e]"
  shows "summarize_text summarizer max_len min_len text st =
         (Inl e, state_after summarizer max_len min_len (take (Suc i) chunks) st)"
proof -
  have first: "take (Suc i) chunks = take i chunks @ [chunks ! i]"
    using assms(2) by (rule take_Suc_conv_app_nth)
  have whole: "chunks = take i chunks @ chunks ! i # drop (Suc i) chunks"
    using assms(2) by (rule id_take_nth_drop)
  have "summarize_loop summarizer max_len min_len
          (take i chunks @ chunks ! i # drop (Suc i) chunks) [] st =
        (Inl e, state_after summarizer max_len min_len (take i chunks @ [chunks ! i]) st)"
    using assms(3) unfolding first by (rule loop_outcomes_fail)
  then have "summarize_loop summarizer max_len min_len chunks [] st =
        (Inl e, state_after summarizer max_len min_len (take (Suc i) chunks) st)"
    using whole first by simp
  with assms(1) show ?thesis by (simp add: summarize_text_def)
qed

text \<open>
  C7 (assembly order): for every provider, with or without state of its own, that
  succeeds on every chunk, \<open>summarize_text\<close> returns the chunk summaries joined with a
  single space, the i-th summary being what the provider gave for the i-th chunk of
  \<open>chunk_text(text, 1000)\<close>; the provider is called once per chunk, in chunk order,
  with the policy's maximum and minimum length.
\<close>

theorem summarize_text_assembly_order:
  assumes "chunk_text text default_chunk_size = Inr chunks"
    and "chunk_outcomes summarizer max_len min_len chunks st = map Inr summaries"
  shows "summarize_text summarizer max_len min_len text st =
           (Inr (py_join (ustr '' '') summaries),
            state_after summarizer max_len min_len chunks st) \<and>
         summarize_text (logged summarizer) max_len min_len text (st, []) =
           (Inr (py_join (ustr '' '') summaries),
            (state_after summarizer max_len min_len chunks st,
             map (\<lambda>chunk. (chunk, max_len, min_len)) chunks))"
proof -
  have "chunk_outcomes (logged summarizer) max_len min_len chunks (st, []) = map Inr summaries"
    using assms(2) by (simp add: chunk_outcomes_logged)
  with assms(1) have
    "summarize_text (logged summarizer) max_len min_len text (st, []) =
       (Inr (py_join (ustr '' '') summaries),
        state_after (logged summarizer) max_len min_len chunks (st, []))"
    by (rule summarize_text_outcomes_ok)
  with summarize_text_outcomes_ok [OF assms] show ?thesis
    by (simp add: state_after_logged)
qed

theorem summarize_text_assembly_order_witness:
  "chunk_text (replicate 1000 97 @ replicate 1000 97) default_chunk_size =
     Inr [replicate 1000 97, replicate 1000 97] \<and>
   chunk_outcomes counting 60 20 [replicate 1000 97, replicate 1000 97] 0 =
     map Inr [[97, 97, 97, 48], [97, 97, 97, 49]] \<and>
   summarize_text counting 60 20 (replicate 1000 97 @ replicate 1000 97) 0 =
     (Inr [97, 97, 97, 48, 32, 97, 97, 97, 49], 2) \<and>
   summarize_text (logged counting) 60 20 (replicate 1000 97 @ replicate 1000 97) (0, []) =
     (Inr [97, 97, 97, 48, 32, 97, 97, 97, 49],
      (2, [(replicate 1000 97, 60, 20), (replicate 1000 97, 60, 20)]))"
proof -
  have chunks: "chunk_text (replicate 1000 97 @ replicate 1000 97) default_chunk_size =
     Inr [replicate 1000 97, replicate 1000 97]"
    by (rule chunk_text_two) simp_all
  have each: "chunk_outcomes counting 60 20 [replicate 1000 97, replicate 1000 97] 0 =
     map Inr [[97, 97, 97, 48], [97, 97, 97, 49]]"
    by (simp add: counting_def summary_of_def summary_text_of_def subscript_def
        numeral_3_eq_3)
  have "state_after counting 60 20 [replicate 1000 97, replicate 1000 97] 0 = 2"
    by (simp add: counting_def)
  moreover have "py_join (ustr '' '') [[97, 97, 97, 48], [97, 97, 97, 49]] =
     [97, 97, 97, 48, 32, 97, 97, 97, 49]"
    by (simp add: ustr_def)
  ultimately show ?thesis
    using chunks each summarize_text_assembly_order [OF chunks each] by simp
qed

text \<open>
  C2 as amended (failure propagation): for every provider, with or without state of
  its own, when the loop body raises on some chunk (the provider raises, or its result
  has no \<open>result[0]["summary_text"]\<close>), \<open>summarize_text\<close> fails as a whole with the
  very exception raised at the first such chunk, which is passed on unchanged and
  carries no chunk index; no summary of an earlier chunk is returned, and the provider
  is not called on any later chunk.
\<close>

theorem summarize_text_failure_propagation:
  assumes "chunk_text text default_chunk_size = Inr chunks"
    and "i < length chunks"
    and "chunk_outcomes summarizer max_len min_len (take (Suc i) chunks) st =
         map Inr summaries @ [Inl e]"
  shows "summarize_text summarizer max_len min_len text st =
           (Inl e, state_after summarizer max_len min_len (take (Suc i) chunks) st) \<and>
         summarize_text (logged summarizer) max_len min_len text (st, []) =
           (Inl e,
            (state_after summarizer max_len min_len (take (Suc i) chunks) st,
             map (\<lambda>chunk. (chunk, max_len, min_len)) (take (Suc i) chunks)))"
proof -
  have "chunk_outcomes (logged summarizer) max_len min_len (take (Suc i) chunks) (st, []) =
        map Inr summaries @ [Inl e]"
    using assms(3) by (simp only: chunk_outcomes_logged)
  with assms(1,2) have
    "summarize_text (logged summarizer) max_len min_len text (st, []) =
       (Inl e, state_after (logged summarizer) max_len min_len (take (Suc i) chunks) (st, []))"
    by (rule summarize_text_outcomes_fail)
  with summarize_text_outcomes_fail [OF assms] show ?thesis
    by (simp only: state_after_logged append_Nil simp_thms)
qed

theorem summarize_text_failure_propagation_witness:
  "chunk_text (replicate 1000 97 @ replicate 1000 97 @ ustr ''b'') default_chunk_size =
     Inr [replicate 1000 97, replicate 1000 97, ustr ''b''] \<and>
   (1::nat) < length [replicate 1000 97, replicate 1000 97, ustr ''b''] \<and>
   chunk_outcomes flaky 60 20
       (take (Suc 1) [replicate 1000 97, replicate 1000 97, ustr ''b'']) 0 =
     map Inr [replicate 8 97] @ [Inl (ProviderError (ustr ''timeout''))] \<and>
   summarize_text flaky 60 20 (replicate 1000 97 @ replicate 1000 97 @ ustr ''b'') 0 =
     (Inl (ProviderError (ustr ''timeout'')), 2) \<and>
   summarize_text (logged flaky) 60 20
       (replicate 1000 97 @ replicate 1000 97 @ ustr ''b'') (0, []) =
     (Inl (ProviderError (ustr ''timeout'')),
      (2, [(replicate 1000 97, 60, 20), (replicate 1000 97, 60, 20)]))"
proof -
  have chunks: "chunk_text (replicate 1000 97 @ replicate 1000 97 @ ustr ''b'')
       default_chunk_size = Inr [replicate 1000 97, replicate 1000 97, ustr ''b'']"
    by (rule chunk_text_three) (simp_all add: ustr_def)
  have idx: "(1::nat) < length [replicate 1000 97, replicate 1000 97, ustr ''b'']" by simp
  have outcomes: "chunk_outcomes flaky 60 20
       (take (Suc 1) [replicate 1000 97, replicate 1000 97, ustr ''b'']) 0 =
     map Inr [replicate 8 97] @ [Inl (ProviderError (ustr ''timeout''))]"
    by (simp add: flaky_def summary_of_def summary_text_of_def subscript_def)
  have "state_after flaky 60 20
       (take (Suc 1) [replicate 1000 97, replicate 1000 97, ustr ''b'']) 0 = 2"
    by (simp add: flaky_def)
  then show ?thesis
    using chunks idx outcomes summarize_text_failure_propagation [OF chunks idx outcomes]
    by simp
qed

text \<open>
  C2 as stated fails: the stub raises the same exception on a chunk that starts with
  \<open>x\<close>, and \<open>summarize_text\<close> fails with that same value whether the failing chunk is
  the first (index 0) or the second (index 1), so the failure does not identify the
  index of the failing chunk.
\<close>

theorem summarize_text_failure_index_counterexample:
  "summarize_text (logged (stateless stub)) 60 20 (ustr ''x'') ((), []) =
     (Inl (ProviderError (ustr ''boom'')), ((), [(ustr ''x'', 60, 20)])) \<and>
   summarize_text (logged (stateless stub)) 60 20 (replicate 1000 97 @ ustr ''x'') ((), []) =
     (Inl (ProviderError (ustr ''boom'')),
      ((), [(replicate 1000 97, 60, 20), (ustr ''x'', 60, 20)]))"
proof -
  have one: "chunk_text (ustr ''x'') default_chunk_size = Inr [ustr ''x'']"
    by (rule chunk_text_one) (simp_all add: ustr_def)
  have two: "chunk_text (replicate 1000 97 @ ustr ''x'') default_chunk_size =
     Inr [replicate 1000 97, ustr ''x'']"
    by (rule chunk_text_two) (simp_all add: ustr_def)
  have "summarize_loop (logged (stateless stub)) 60 20 [ustr ''x''] [] ((), []) =
     (Inl (ProviderError (ustr ''boom'')), ((), [(ustr ''x'', 60, 20)]))"
    using loop_step_fail [OF stub_fail, of "[]" "[]" "()" "[]"] by simp
  moreover have "summarize_loop (logged (stateless stub)) 60 20
       [replicate 1000 97, ustr ''x''] [] ((), []) =
     (Inl (ProviderError (ustr ''boom'')),
      ((), [(replicate 1000 97, 60, 20), (ustr ''x'', 60, 20)]))"
    using loop_step_ok [OF stub_ok, of "[ustr ''x'']" "[]" "()" "[]"]
      loop_step_fail [OF stub_fail, of "[]" "[replicate 8 97]" "()" "[(replicate 1000 97, 60, 20)]"]
    by simp
  ultimately show ?thesis using one two by (simp add: summarize_text_def)
qed

section \<open>Properties of the study-notes button\<close>

lemma notes_example:
  "generate_notes (logged (stateless stub)) 60 20 [] (ustr ''pdf text here'') ((), []) =
     (StudyNotes [bullet_marker @ ustr ''pdf text''] (ustr ''pdf text''),
      ((), [(ustr ''pdf text here'', 60, 20)]))"
proof -
  have chunks: "chunk_text (ustr ''pdf text here'') default_chunk_size = Inr [ustr ''pdf text here'']"
    by (rule chunk_text_one) (simp_all add: ustr_def)
  have each: "list_all2 (\<lambda>chunk s. chunk_summary stub 60 20 chunk = Inr s)
     [ustr ''pdf text here''] [ustr ''pdf text'']"
    by (simp add: stub_ok3)
  have summary: "summarize_text (logged (stateless stub)) 60 20 (ustr ''pdf text here'') ((), []) =
     (Inr (ustr ''pdf text''), ((), [(ustr ''pdf text here'', 60, 20)]))"
    using summarize_text_in_order [OF chunks each, of "()"] by simp
  have "\<not> contains (ustr ''. '') (ustr ''pdf text'')" by (simp add: ustr_def)
  then have "split_loop (ustr ''. '') (ustr ''pdf text'') = [ustr ''pdf text'']"
    by (rule split_loop_no_delim)
  moreover have "strip (ustr ''pdf text'') = ustr ''pdf text''"
    by (simp add: strip_def ustr_def is_space_def)
  ultimately have bullets: "to_bullets (ustr ''pdf text'') = Inr [bullet_marker @ ustr ''pdf text'']"
    by (simp add: to_bullets_def py_split_def delim_nonempty) (simp add: ustr_def)
  have "source_text (ustr ''pdf text here'') [] = ustr ''pdf text here''"
    by (simp add: source_text_def ustr_def)
  moreover have "ustr ''pdf text here'' \<noteq> []" by (simp add: ustr_def)
  ultimately show ?thesis using summary bullets
    by (simp add: generate_notes_def)
qed

text \<open>
  C10 (source precedence): whenever the text extracted from the PDF is not empty, it is
  the source text and the notes do not depend on what the user typed; the typed input
  is the source text only when the extracted text is empty.
\<close>

theorem source_precedence:
  "(text \<noteq> [] \<longrightarrow>
      source_text text user_input = text \<and>
      generate_notes summarizer max_len min_len user_input text st =
        generate_notes summarizer max_len min_len other_input text st) \<and>
   (text = [] \<longrightarrow> source_text text user_input = user_input)"
  by (simp add: generate_notes_def source_text_def)

theorem source_precedence_witness:
  "ustr ''pdf text here'' \<noteq> [] \<and>
   source_text (ustr ''pdf text here'') (ustr ''typed words'') = ustr ''pdf text here'' \<and>
   generate_notes (logged (stateless stub)) 60 20 (ustr ''typed words'')
       (ustr ''pdf text here'') ((), []) =
     (StudyNotes [bullet_marker @ ustr ''pdf text''] (ustr ''pdf text''),
      ((), [(ustr ''pdf text here'', 60, 20)])) \<and>
   source_text [] (ustr ''typed words'') = ustr ''typed words''"
proof -
  have ne: "ustr ''pdf text here'' \<noteq> []" by (simp add: ustr_def)
  from ne source_precedence [of "ustr ''pdf text here''" "ustr ''typed words''"
      "logged (stateless stub)" 60 20 "((), [])" "[]"]
    source_precedence [of "[]" "ustr ''typed words''"]
    notes_example
  show ?thesis by simp
qed

end
